theory Spec2Isabelle
  imports Main "HOL-Library.Word" "HOL-Library.Sublist" "HOL-Library.AList"
begin

section \<open>Pushing and pulling document arrays to and from S3\<close>

text \<open>
  A shallow embedding of \<^verbatim>\<open>docarray/array/array/pushpull/s3.py\<close> (class
  \<^verbatim>\<open>PushPullS3\<close>). Python exceptions are values of type \<open>exn\<close>; a call that may raise
  returns \<open>exn + 'a\<close>. The S3 store, the in-memory \<^verbatim>\<open>io.BytesIO\<close> buffer and
  the handle returned by \<^verbatim>\<open>smart_open.open\<close> are explicit state.
\<close>

subsection \<open>Bytes, exceptions, strings\<close>

type_synonym byte = "8 word"
type_synonym bytes = "byte list"

text \<open>
  \<open>ValueError msg\<close> is Python's \<^verbatim>\<open>ValueError(msg)\<close>; \<open>ClientError code\<close> is
  \<^verbatim>\<open>botocore.exceptions.ClientError\<close> with \<^verbatim>\<open>response['Error']['Code'] == code\<close>;
  \<open>OtherError msg\<close> stands for every exception of another class (connection errors of
  botocore, \<^verbatim>\<open>OSError\<close> of smart_open, failures of the codec).
\<close>

datatype exn = ValueError string | ClientError string | OtherError string

text \<open>\<^verbatim>\<open>s.split(c, 1)\<close>: cut at the first occurrence of \<open>c\<close>, if there is one.\<close>

fun str_split1 :: "char \<Rightarrow> string \<Rightarrow> string list" where
  "str_split1 c [] = [[]]"
| "str_split1 c (x # xs) =
     (if x = c then [[], xs]
      else (let r = str_split1 c xs in (x # hd r) # tl r))"

text \<open>\<^verbatim>\<open>s.split(c)\<close>: cut at every occurrence of \<open>c\<close>; the result is never empty.\<close>

fun str_split :: "char \<Rightarrow> string \<Rightarrow> string list" where
  "str_split c [] = [[]]"
| "str_split c (x # xs) =
     (if x = c then [] # str_split c xs
      else (let r = str_split c xs in (x # hd r) # tl r))"

text \<open>
  \<^verbatim>\<open>a, b = xs\<close>: unpacking into two targets raises \<^verbatim>\<open>ValueError\<close> unless \<open>xs\<close>
  has exactly two elements.
\<close>

definition unpack2 :: "string list \<Rightarrow> exn + (string \<times> string)" where
  "unpack2 xs =
     (case xs of
        [] \<Rightarrow> Inl (ValueError ''not enough values to unpack (expected 2, got 0)'')
      | [a] \<Rightarrow> Inl (ValueError ''not enough values to unpack (expected 2, got 1)'')
      | [a, b] \<Rightarrow> Inr (a, b)
      | _ \<Rightarrow> Inl (ValueError ''too many values to unpack (expected 2)''))"

text \<open>\<^verbatim>\<open>bucket, name = name.split('/', 1)\<close>, the first statement of every operation.\<close>

definition split_name :: "string \<Rightarrow> exn + (string \<times> string)" where
  "split_name name = unpack2 (str_split1 (CHR ''/'') name)"

subsection \<open>The in-memory buffer \<^verbatim>\<open>io.BytesIO\<close>\<close>

text \<open>
  A \<^verbatim>\<open>BytesIO\<close> is its contents and a stream position. \<^verbatim>\<open>write\<close> overwrites
  from the position on (padding with zero bytes when the position is past the end),
  advances the position and returns the number of bytes written; a write of no bytes
  changes nothing. \<^verbatim>\<open>read(n)\<close> returns at most \<open>n\<close> bytes from the position on and
  advances past them. \<^verbatim>\<open>seek(p)\<close> sets the position.
\<close>

record bytesio =
  buf :: bytes
  pos :: nat

definition bio_write :: "bytes \<Rightarrow> bytesio \<Rightarrow> nat \<times> bytesio" where
  "bio_write b io =
     (if b = [] then (0, io)
      else (length b,
            \<lparr>buf = take (pos io) (buf io) @ replicate (pos io - length (buf io)) 0
                    @ b @ drop (pos io + length b) (buf io),
             pos = pos io + length b\<rparr>))"

definition bio_read :: "nat \<Rightarrow> bytesio \<Rightarrow> bytes \<times> bytesio" where
  "bio_read n io =
     (let r = take n (drop (pos io) (buf io))
      in (r, io\<lparr>pos := pos io + length r\<rparr>))"

definition bio_seek :: "nat \<Rightarrow> bytesio \<Rightarrow> bytesio" where
  "bio_seek p io = io\<lparr>pos := p\<rparr>"

subsection \<open>The upload loop of \<^verbatim>\<open>push_stream\<close>\<close>

text \<open>\<^verbatim>\<open>_buffer_cap = 4 * 1024 * 1024 - 1024\<close>\<close>

definition buffer_cap :: nat where
  "buffer_cap = 4 * 1024 * 1024 - 1024"

text \<open>
  The local state of the loop: \<^verbatim>\<open>_buffer_size\<close>, \<^verbatim>\<open>_buffer\<close>, the arguments of the
  calls \<^verbatim>\<open>fout.write(...)\<close> made so far (oldest first) and the lines printed.
\<close>

record push_state =
  buffer_size :: nat
  buffer :: bytesio
  fout :: "bytes list"
  stdout :: "string list"

text \<open>
  Lines 105 to 108, and again 110 to 113:
  \<^verbatim>\<open>_buffer.seek(0); fout.write(_buffer.read(_buffer_size)); _buffer.seek(0); _buffer_size = 0\<close>
\<close>

definition flush :: "push_state \<Rightarrow> push_state" where
  "flush st =
     (let b0 = bio_seek 0 (buffer st);
          (data, b1) = bio_read (buffer_size st) b0
      in st\<lparr>fout := fout st @ [data], buffer := bio_seek 0 b1, buffer_size := 0\<rparr>)"

text \<open>
  One pass through the body of the \<^verbatim>\<open>try\<close> (lines 102 to 108) with the next chunk:
  write it whole into the buffer, add its length to \<^verbatim>\<open>_buffer_size\<close>, and flush
  when the size has reached the capacity.
\<close>

definition push_step :: "bytes \<Rightarrow> push_state \<Rightarrow> push_state" where
  "push_step chunk st =
     (let (n, b) = bio_write chunk (buffer st);
          st1 = st\<lparr>buffer := b, buffer_size := buffer_size st + n\<rparr>
      in if buffer_size st1 \<ge> buffer_cap
         then flush (st1\<lparr>stdout := stdout st1 @ [''flushing'']\<rparr>)
         else st1)"

text \<open>
  The \<^verbatim>\<open>while True\<close> loop over \<^verbatim>\<open>next(binary_stream)\<close>. The chunks still to come are
  the list; \<^verbatim>\<open>StopIteration\<close> is the empty list, where the loop flushes and breaks.
\<close>

fun push_loop :: "bytes list \<Rightarrow> push_state \<Rightarrow> push_state" where
  "push_loop [] st = flush st"
| "push_loop (chunk # rest) st = push_loop rest (push_step chunk st)"

text \<open>The state before the loop: lines 95 to 97 and a freshly opened \<^verbatim>\<open>fout\<close>.\<close>

definition push_init :: push_state where
  "push_init = \<lparr>buffer_size = 0, buffer = \<lparr>buf = [], pos = 0\<rparr>, fout = [], stdout = []\<rparr>"

text \<open>The blocks written to the sink for a chunk sequence, in emission order.\<close>

definition push_blocks :: "bytes list \<Rightarrow> bytes list" where
  "push_blocks chunks = fout (push_loop chunks push_init)"

text \<open>
  The state when \<^verbatim>\<open>next(binary_stream)\<close> raises \<^verbatim>\<open>StopIteration\<close>: every chunk has gone
  through the body of the \<^verbatim>\<open>try\<close>, the handler has not run yet.
\<close>

definition at_exhaustion :: "bytes list \<Rightarrow> push_state" where
  "at_exhaustion chunks = foldl (\<lambda>st chunk. push_step chunk st) push_init chunks"

subsection \<open>The store and the codec\<close>

text \<open>
  The S3 store as the operations see it: the objects, addressed by bucket and key, in
  the order in which the store lists them, and the failure, if any, with which the store
  answers the metadata request of \<^verbatim>\<open>Object.load()\<close> for an address (a permission
  or network error, say). boto3 and smart_open are outside this repository.
\<close>

record s3 =
  objects :: "((string \<times> string) \<times> bytes) list"
  load_fault :: "string \<times> string \<Rightarrow> exn option"

text \<open>\<^verbatim>\<open>[obj.key for obj in s3.Bucket(bucket).objects.all()]\<close>\<close>

definition objects_all :: "s3 \<Rightarrow> string \<Rightarrow> string list" where
  "objects_all s bucket = map (\<lambda>e. snd (fst e)) (filter (\<lambda>e. fst (fst e) = bucket) (objects s))"

text \<open>
  \<^verbatim>\<open>s3.Object(bucket, key).load()\<close>: raises what the store answers; an absent object is
  a \<^verbatim>\<open>ClientError\<close> with code 404.
\<close>

definition object_load :: "s3 \<Rightarrow> string \<Rightarrow> string \<Rightarrow> exn + unit" where
  "object_load s bucket key =
     (case load_fault s (bucket, key) of
        Some e \<Rightarrow> Inl e
      | None \<Rightarrow>
          (case map_of (objects s) (bucket, key) of
             None \<Rightarrow> Inl (ClientError ''404'')
           | Some d \<Rightarrow> Inr ()))"

text \<open>\<^verbatim>\<open>s3.Object(bucket, key).delete()\<close>\<close>

definition object_delete :: "s3 \<Rightarrow> string \<Rightarrow> string \<Rightarrow> s3" where
  "object_delete s bucket key = s\<lparr>objects := AList.delete (bucket, key) (objects s)\<rparr>"

text \<open>
  smart_open addresses an S3 object by the URI \<^verbatim>\<open>s3://<bucket>/<key>\<close>: after the
  scheme, the bucket runs up to the first \<^verbatim>\<open>/\<close> and the key is the rest.
\<close>

definition parse_uri :: "string \<Rightarrow> string \<times> string" where
  "parse_uri uri =
     (let r = drop 5 uri
      in (takeWhile (\<lambda>c. c \<noteq> CHR ''/'') r, drop 1 (dropWhile (\<lambda>c. c \<noteq> CHR ''/'') r)))"

text \<open>
  \<^verbatim>\<open>with open(uri, 'wb') as fout: ...\<close>: when the block is left, the object holds the
  bytes of all writes, in order, and replaces any object of that address.
\<close>

definition close_wb :: "string \<Rightarrow> bytes list \<Rightarrow> s3 \<Rightarrow> s3" where
  "close_wb uri writes s = s\<lparr>objects := AList.update (parse_uri uri) (concat writes) (objects s)\<rparr>"

text \<open>\<^verbatim>\<open>open(uri, 'rb')\<close>: the bytes of the object; an absent object is an error.\<close>

definition open_rb :: "string \<Rightarrow> s3 \<Rightarrow> exn + bytes" where
  "open_rb uri s =
     (case map_of (objects s) (parse_uri uri) of
        None \<Rightarrow> Inl (OtherError ''OSError'')
      | Some d \<Rightarrow> Inr d)"

text \<open>
  The helpers \<^verbatim>\<open>_to_binary_stream(docs, protocol, compress, show_progress)\<close> and
  \<^verbatim>\<open>_from_binary_stream(document_type, stream, protocol, compress, show_progress)\<close> of
  \<^verbatim>\<open>docarray.array.array.pushpull.helpers\<close> are parameters of the model: the first
  gives the encoded chunks of a document sequence, the second the documents of a byte
  stream or the failure of the decoder. The document type is the type \<open>'doc\<close>.
\<close>

record 'doc codec =
  to_binary_stream :: "'doc list \<Rightarrow> string \<Rightarrow> string \<Rightarrow> bool \<Rightarrow> bytes list"
  from_binary_stream :: "bytes \<Rightarrow> string \<Rightarrow> string \<Rightarrow> bool \<Rightarrow> exn + 'doc list"

type_synonym dict = "(string \<times> string) list"

subsection \<open>The operations of \<^verbatim>\<open>PushPullS3\<close>\<close>

text \<open>
  Every operation starts with \<^verbatim>\<open>bucket, name = name.split('/', 1)\<close>; what follows
  that statement is the operation's body, a function of the bucket and the rest.
\<close>

text \<open>
  \<^verbatim>\<open>list(namespace, show_table)\<close>, lines 21 to 52. The table printed when
  \<^verbatim>\<open>show_table\<close> is set does not change the result and is left out.
\<close>

definition list_body :: "string \<Rightarrow> string \<Rightarrow> bool \<Rightarrow> s3 \<Rightarrow> string list" where
  "list_body bucket namespace show_table s =
     (let da_files = filter (\<lambda>key. prefix namespace key \<and> suffix ''.da'' key)
                       (objects_all s bucket);
          da_names = map (\<lambda>key. hd (str_split (CHR ''.'') (last (str_split (CHR ''/'') key))))
                       da_files
      in da_names)"

definition list_da :: "string \<Rightarrow> bool \<Rightarrow> s3 \<Rightarrow> exn + string list" where
  "list_da namespace show_table s =
     (case split_name namespace of
        Inl e \<Rightarrow> Inl e
      | Inr (bucket, namespace') \<Rightarrow> Inr (list_body bucket namespace' show_table s))"

text \<open>
  \<^verbatim>\<open>delete(name, missing_ok)\<close>, lines 57 to 70: the result or the exception, and the
  store afterwards.
\<close>

definition delete_body :: "string \<Rightarrow> string \<Rightarrow> bool \<Rightarrow> s3 \<Rightarrow> (exn + bool) \<times> s3" where
  "delete_body bucket name missing_ok s =
     (case object_load s bucket (name @ ''.da'') of
        Inl (ClientError code) \<Rightarrow>
          (if code = ''404''
           then (if missing_ok then (Inr False, s)
                 else (Inl (ValueError (''Object '' @ name @ '' does not exist'')), s))
           else (Inl (ClientError code), s))
      | Inl e \<Rightarrow> (Inl e, s)
      | Inr u \<Rightarrow> (Inr True, object_delete s bucket (name @ ''.da'')))"

definition delete :: "string \<Rightarrow> bool \<Rightarrow> s3 \<Rightarrow> (exn + bool) \<times> s3" where
  "delete name missing_ok s =
     (case split_name name of
        Inl e \<Rightarrow> (Inl e, s)
      | Inr (bucket, name') \<Rightarrow> delete_body bucket name' missing_ok s)"

text \<open>The address \<^verbatim>\<open>f"s3://{bucket}/{name}.da"\<close> of lines 99 and 143.\<close>

definition s3_uri :: "string \<Rightarrow> string \<Rightarrow> string" where
  "s3_uri bucket name = ''s3://'' @ bucket @ ''/'' @ name @ ''.da''"

text \<open>
  \<^verbatim>\<open>push_stream(docs, name, public, show_progress, branding)\<close>, lines 91 to 116: the
  returned dictionary and the store afterwards.
\<close>

definition push_stream_body ::
  "'doc codec \<Rightarrow> 'doc list \<Rightarrow> string \<Rightarrow> string \<Rightarrow> bool \<Rightarrow> bool \<Rightarrow> dict option \<Rightarrow> s3
     \<Rightarrow> (exn + dict) \<times> s3" where
  "push_stream_body cd docs bucket name public show_progress branding s =
     (let binary_stream = to_binary_stream cd docs ''protobuf'' ''gzip'' show_progress;
          st = push_loop binary_stream push_init
      in (Inr [], close_wb (s3_uri bucket name) (fout st) s))"

definition push_stream ::
  "'doc codec \<Rightarrow> 'doc list \<Rightarrow> string \<Rightarrow> bool \<Rightarrow> bool \<Rightarrow> dict option \<Rightarrow> s3 \<Rightarrow> (exn + dict) \<times> s3" where
  "push_stream cd docs name public show_progress branding s =
     (case split_name name of
        Inl e \<Rightarrow> (Inl e, s)
      | Inr (bucket, name') \<Rightarrow> push_stream_body cd docs bucket name' public show_progress branding s)"

text \<open>\<^verbatim>\<open>push(da, name, public, show_progress, branding)\<close>\<close>

definition push ::
  "'doc codec \<Rightarrow> 'doc list \<Rightarrow> string \<Rightarrow> bool \<Rightarrow> bool \<Rightarrow> dict option \<Rightarrow> s3 \<Rightarrow> (exn + dict) \<times> s3" where
  "push cd da name public show_progress branding s =
     push_stream cd da name public show_progress branding s"

text \<open>\<^verbatim>\<open>pull_stream(cls, name, show_progress, local_cache)\<close>, lines 141 to 147.\<close>

definition pull_stream_body ::
  "'doc codec \<Rightarrow> string \<Rightarrow> string \<Rightarrow> bool \<Rightarrow> bool \<Rightarrow> s3 \<Rightarrow> exn + 'doc list" where
  "pull_stream_body cd bucket name show_progress local_cache s =
     (case open_rb (s3_uri bucket name) s of
        Inl e \<Rightarrow> Inl e
      | Inr stream \<Rightarrow> from_binary_stream cd stream ''protobuf'' ''gzip'' show_progress)"

definition pull_stream :: "'doc codec \<Rightarrow> string \<Rightarrow> bool \<Rightarrow> bool \<Rightarrow> s3 \<Rightarrow> exn + 'doc list" where
  "pull_stream cd name show_progress local_cache s =
     (case split_name name of
        Inl e \<Rightarrow> Inl e
      | Inr (bucket, name') \<Rightarrow> pull_stream_body cd bucket name' show_progress local_cache s)"

text \<open>\<^verbatim>\<open>pull(cls, name, show_progress, local_cache)\<close>: the stream drained into a collection.\<close>

definition pull :: "'doc codec \<Rightarrow> string \<Rightarrow> bool \<Rightarrow> bool \<Rightarrow> s3 \<Rightarrow> exn + 'doc list" where
  "pull cd name show_progress local_cache s = pull_stream cd name show_progress local_cache s"

subsection \<open>Notions used in the statements\<close>

text \<open>
  The loop keeps the position of the buffer equal to \<^verbatim>\<open>_buffer_size\<close>, within the
  contents; the bytes accumulated since the last flush are the first \<^verbatim>\<open>_buffer_size\<close>
  bytes of the buffer (what lies beyond is left over from earlier blocks).
\<close>

definition buf_inv :: "push_state \<Rightarrow> bool" where
  "buf_inv st \<longleftrightarrow> pos (buffer st) = buffer_size st \<and> buffer_size st \<le> length (buf (buffer st))"

definition pending :: "push_state \<Rightarrow> bytes" where
  "pending st = take (buffer_size st) (buf (buffer st))"

text \<open>
  The chunk buffer in the words of the specification: \<open>accumulate\<close> appends a chunk and
  emits the whole accumulated buffer once its size reaches the capacity; \<open>finalize\<close>
  emits whatever remains.
\<close>

fun spec_blocks :: "bytes \<Rightarrow> bytes list \<Rightarrow> bytes list" where
  "spec_blocks acc [] = [acc]"
| "spec_blocks acc (c # cs) =
     (if length (acc @ c) \<ge> buffer_cap then (acc @ c) # spec_blocks [] cs
      else spec_blocks (acc @ c) cs)"

text \<open>The same, keeping the chunks of each block apart; \<open>g\<close> holds the chunks accumulated.\<close>

fun chunk_groups :: "bytes list \<Rightarrow> bytes list \<Rightarrow> bytes list list" where
  "chunk_groups g [] = [g]"
| "chunk_groups g (c # cs) =
     (if length (concat (g @ [c])) \<ge> buffer_cap then (g @ [c]) # chunk_groups [] cs
      else chunk_groups (g @ [c]) cs)"

text \<open>
  The split of a namespace path in the words of the specification: the first segment is
  the bucket, the rest addresses the object.
\<close>

definition spec_split :: "string \<Rightarrow> (string \<times> string) option" where
  "spec_split name =
     (if CHR ''/'' \<in> set name
      then Some (takeWhile (\<lambda>c. c \<noteq> CHR ''/'') name, drop 1 (dropWhile (\<lambda>c. c \<noteq> CHR ''/'') name))
      else None)"

text \<open>The exception of the unpacking when the path has no \<^verbatim>\<open>/\<close>.\<close>

definition missing_separator :: exn where
  "missing_separator = ValueError ''not enough values to unpack (expected 2, got 1)''"

text \<open>
  The name of a listed object in the words of the specification: the key without any
  path prefix and without the fixed extension \<^verbatim>\<open>.da\<close>.
\<close>

definition spec_da_name :: "string \<Rightarrow> string" where
  "spec_da_name key =
     (let base = last (str_split (CHR ''/'') key)
      in take (length base - length ''.da'') base)"

section \<open>Properties of the upload loop\<close>

lemma buf_inv_init: "buf_inv push_init"
  by (simp add: buf_inv_def push_init_def)

lemma pending_init: "pending push_init = []"
  by (simp add: pending_def push_init_def)

lemma flush_fout: "buf_inv st \<Longrightarrow> fout (flush st) = fout st @ [pending st]"
  by (simp add: flush_def bio_read_def bio_seek_def pending_def buf_inv_def Let_def)

lemma flush_inv: "buf_inv st \<Longrightarrow> buf_inv (flush st)"
  by (simp add: flush_def bio_read_def bio_seek_def buf_inv_def Let_def)

lemma flush_pending: "pending (flush st) = []"
  by (simp add: flush_def bio_read_def bio_seek_def pending_def Let_def)

lemma write_inv:
  assumes "buf_inv st" and "bio_write chunk (buffer st) = (n, b)"
  shows "buf_inv (st\<lparr>buffer := b, buffer_size := buffer_size st + n\<rparr>)"
  using assms by (auto simp: bio_write_def buf_inv_def split: if_splits)

lemma write_pending:
  assumes "buf_inv st" and "bio_write chunk (buffer st) = (n, b)"
  shows "pending (st\<lparr>buffer := b, buffer_size := buffer_size st + n\<rparr>) = pending st @ chunk"
  using assms by (auto simp: bio_write_def buf_inv_def pending_def split: if_splits)

lemma pending_length: "buf_inv st \<Longrightarrow> length (pending st) = buffer_size st"
  by (simp add: pending_def buf_inv_def)

text \<open>One pass through the loop body, on a state that satisfies the invariant.\<close>

lemma push_step_cases:
  assumes "buf_inv st"
  shows "buf_inv (push_step chunk st) \<and>
         (if buffer_cap \<le> length (pending st @ chunk)
          then fout (push_step chunk st) = fout st @ [pending st @ chunk]
               \<and> pending (push_step chunk st) = []
          else fout (push_step chunk st) = fout st
               \<and> pending (push_step chunk st) = pending st @ chunk)"
proof -
  obtain n b where w: "bio_write chunk (buffer st) = (n, b)"
    by (cases "bio_write chunk (buffer st)")
  define st1 where "st1 = st\<lparr>buffer := b, buffer_size := buffer_size st + n\<rparr>"
  have inv1: "buf_inv st1"
    unfolding st1_def using assms w by (rule write_inv)
  have pend1: "pending st1 = pending st @ chunk"
    unfolding st1_def using assms w by (rule write_pending)
  have size1: "buffer_size st1 = length (pending st @ chunk)"
    using inv1 pend1 pending_length by metis
  have fout1: "fout st1 = fout st"
    by (simp add: st1_def)
  show ?thesis
  proof (cases "buffer_cap \<le> buffer_size st1")
    case True
    define st2 where "st2 = flush (st1\<lparr>stdout := stdout st1 @ [''flushing'']\<rparr>)"
    have inv1': "buf_inv (st1\<lparr>stdout := stdout st1 @ [''flushing'']\<rparr>)"
      using inv1 by (simp add: buf_inv_def)
    have inv2: "buf_inv st2"
      unfolding st2_def using inv1' by (rule flush_inv)
    have pend2: "pending st2 = []"
      unfolding st2_def by (rule flush_pending)
    have fout2: "fout st2 = fout st @ [pending st @ chunk]"
      unfolding st2_def using flush_fout [OF inv1'] pend1 fout1 by (simp add: pending_def)
    have "push_step chunk st = st2"
      using w True by (simp add: push_step_def st1_def st2_def)
    then show ?thesis
      using inv2 pend2 fout2 True size1 by simp
  next
    case False
    have "push_step chunk st = st1"
      using w False by (simp add: push_step_def st1_def)
    then show ?thesis
      using inv1 pend1 fout1 False size1 by simp
  qed
qed

lemma push_step_inv: "buf_inv st \<Longrightarrow> buf_inv (push_step chunk st)"
  using push_step_cases by blast

lemma push_loop_spec:
  "buf_inv st \<Longrightarrow> fout (push_loop chunks st) = fout st @ spec_blocks (pending st) chunks"
proof (induction chunks arbitrary: st)
  case Nil
  then show ?case by (simp add: flush_fout)
next
  case (Cons chunk rest)
  have step: "buf_inv (push_step chunk st)"
    using Cons.prems by (rule push_step_inv)
  show ?case
    using Cons.IH [OF step] push_step_cases [OF Cons.prems, of chunk]
    by (simp split: if_splits)
qed

lemma push_blocks_spec: "push_blocks chunks = spec_blocks [] chunks"
proof -
  have "fout push_init = []"
    by (simp add: push_init_def)
  then show ?thesis
    using push_loop_spec [OF buf_inv_init, of chunks]
    by (simp add: push_blocks_def pending_init)
qed

lemma concat_spec_blocks: "concat (spec_blocks acc chunks) = acc @ concat chunks"
  by (induction chunks arbitrary: acc) auto

text \<open>
  C2. For every sequence of input chunks, the concatenation of the blocks written to the
  sink, in emission order, is the concatenation of the input chunks in input order: no
  byte is duplicated or dropped, also across block boundaries.
\<close>

theorem push_blocks_complete: "concat (push_blocks chunks) = concat chunks"
  by (simp add: push_blocks_spec concat_spec_blocks)

subsection \<open>When a block is emitted\<close>

lemma buffer_cap_pos: "0 < buffer_cap"
  by (simp add: buffer_cap_def)

lemma chunk_groups_nonempty: "chunk_groups g cs \<noteq> []"
  by (induction cs arbitrary: g) auto

lemma concat_chunk_groups: "concat (chunk_groups g cs) = g @ cs"
  by (induction cs arbitrary: g) auto

lemma spec_blocks_groups: "spec_blocks (concat g) cs = map concat (chunk_groups g cs)"
proof (induction cs arbitrary: g)
  case Nil
  show ?case by simp
next
  case (Cons c cs)
  have "spec_blocks (concat (g @ [c])) cs = map concat (chunk_groups (g @ [c]) cs)"
    by (rule Cons.IH)
  moreover have "spec_blocks (concat []) cs = map concat (chunk_groups [] cs)"
    by (rule Cons.IH)
  ultimately show ?case by simp
qed

lemma chunk_groups_last:
  "length (concat g) < buffer_cap \<Longrightarrow> length (concat (last (chunk_groups g cs))) < buffer_cap"
proof (induction cs arbitrary: g)
  case Nil
  then show ?case by simp
next
  case (Cons c cs)
  have empty: "length (concat ([] :: bytes list)) < buffer_cap"
    using buffer_cap_pos by simp
  show ?case
    using Cons.IH [of "g @ [c]"] Cons.IH [OF empty] chunk_groups_nonempty [of "[]" cs]
    by (simp del: chunk_groups.simps(1))
qed

lemma chunk_groups_butlast:
  assumes "length (concat g) < buffer_cap"
      and "x \<in> set (butlast (chunk_groups g cs))"
  shows "x \<noteq> [] \<and> length (concat (butlast x)) < buffer_cap \<and> buffer_cap \<le> length (concat x)"
  using assms
proof (induction cs arbitrary: g)
  case Nil
  then show ?case by simp
next
  case (Cons c cs)
  have empty: "length (concat ([] :: bytes list)) < buffer_cap"
    using buffer_cap_pos by simp
  show ?case
  proof (cases "buffer_cap \<le> length (concat (g @ [c]))")
    case True
    then have "x = g @ [c] \<or> x \<in> set (butlast (chunk_groups [] cs))"
      using Cons.prems(2) chunk_groups_nonempty [of "[]" cs] by (simp split: if_splits)
    then show ?thesis
    proof
      assume "x = g @ [c]"
      then show ?thesis using True Cons.prems(1) by simp
    next
      assume "x \<in> set (butlast (chunk_groups [] cs))"
      then show ?thesis using Cons.IH [OF empty] by blast
    qed
  next
    case False
    then have small: "length (concat (g @ [c])) < buffer_cap" by simp
    have "x \<in> set (butlast (chunk_groups (g @ [c]) cs))"
      using Cons.prems(2) False by simp
    then show ?thesis using Cons.IH [OF small] by blast
  qed
qed

text \<open>
  C3. The chunk sequence falls into consecutive groups of whole chunks, one group per
  block written. A block is written exactly when, after a whole chunk has been appended,
  the accumulated size has reached the capacity: in every group but the last the chunks
  before its last one stay below the capacity and the whole group reaches it, so such a
  block has at least the size of the capacity, exceeds it by at most the size of its last
  chunk and is not empty. The last group, written when the chunks are exhausted, stays
  below the capacity and may be empty.
\<close>

theorem push_blocks_threshold:
  "\<exists>groups. groups \<noteq> [] \<and> concat groups = chunks \<and> push_blocks chunks = map concat groups
     \<and> (\<forall>g \<in> set (butlast groups).
           g \<noteq> [] \<and> length (concat (butlast g)) < buffer_cap
           \<and> buffer_cap \<le> length (concat g)
           \<and> length (concat g) \<le> buffer_cap + length (last g)
           \<and> concat g \<noteq> [])
     \<and> length (concat (last groups)) < buffer_cap"
proof -
  define groups where "groups = chunk_groups [] chunks"
  have empty: "length (concat ([] :: bytes list)) < buffer_cap"
    using buffer_cap_pos by simp
  have ne: "groups \<noteq> []"
    unfolding groups_def by (rule chunk_groups_nonempty)
  have cat: "concat groups = chunks"
    unfolding groups_def by (simp add: concat_chunk_groups)
  have blocks: "push_blocks chunks = map concat groups"
    unfolding groups_def using spec_blocks_groups [of "[]" chunks] by (simp add: push_blocks_spec)
  have final: "length (concat (last groups)) < buffer_cap"
    unfolding groups_def using empty by (rule chunk_groups_last)
  have inner: "g \<noteq> [] \<and> length (concat (butlast g)) < buffer_cap
           \<and> buffer_cap \<le> length (concat g)
           \<and> length (concat g) \<le> buffer_cap + length (last g)
           \<and> concat g \<noteq> []" if "g \<in> set (butlast groups)" for g
  proof -
    have base: "g \<noteq> [] \<and> length (concat (butlast g)) < buffer_cap \<and> buffer_cap \<le> length (concat g)"
      using chunk_groups_butlast [OF empty] that unfolding groups_def by blast
    then have "concat g = concat (butlast g) @ last g"
      by (metis append_butlast_last_id concat_append concat.simps append_Nil2)
    then have "length (concat g) = length (concat (butlast g)) + length (last g)"
      by (metis length_append)
    then have bound: "length (concat g) \<le> buffer_cap + length (last g)"
      using base by linarith
    have "0 < length (concat g)"
      using base buffer_cap_pos by linarith
    then have "concat g \<noteq> []"
      by (metis length_greater_0_conv)
    then show ?thesis using base bound by blast
  qed
  show ?thesis
    using ne cat blocks final inner by blast
qed

text \<open>
  Three chunks, the first one byte short of the capacity: the second chunk completes the
  first block, the third is left for the final write.
\<close>

theorem push_blocks_threshold_witness:
  "\<exists>groups. butlast groups \<noteq> []
     \<and> concat groups = [replicate 4193279 0, [1], [2]]
     \<and> push_blocks [replicate 4193279 0, [1], [2]] = map concat groups
     \<and> push_blocks [replicate 4193279 0, [1], [2]] = [replicate 4193279 0 @ [1], [2]]
     \<and> (\<forall>g \<in> set (butlast groups).
           g \<noteq> [] \<and> length (concat (butlast g)) < buffer_cap
           \<and> buffer_cap \<le> length (concat g)
           \<and> length (concat g) \<le> buffer_cap + length (last g)
           \<and> concat g \<noteq> [])
     \<and> length (concat (last groups)) < buffer_cap"
proof -
  define chunks :: "bytes list" where "chunks = [replicate 4193279 0, [1], [2]]"
  have run: "push_blocks chunks = [replicate 4193279 0 @ [1], [2]]"
    by (simp add: chunks_def push_blocks_def push_init_def push_step_def bio_write_def
        flush_def bio_read_def bio_seek_def buffer_cap_def)
  obtain groups where g: "groups \<noteq> []" "concat groups = chunks"
      "push_blocks chunks = map concat groups"
      "\<forall>g \<in> set (butlast groups).
           g \<noteq> [] \<and> length (concat (butlast g)) < buffer_cap
           \<and> buffer_cap \<le> length (concat g)
           \<and> length (concat g) \<le> buffer_cap + length (last g)
           \<and> concat g \<noteq> []"
      "length (concat (last groups)) < buffer_cap"
    using push_blocks_threshold [of chunks] by blast
  have "length groups = 2"
    using g(3) run by (metis length_map length_Cons list.size(3) numeral_2_eq_2)
  then have "butlast groups \<noteq> []"
    by (cases groups) (auto split: if_splits)
  then show ?thesis
    using g run unfolding chunks_def by blast
qed

subsection \<open>The final write\<close>

lemma push_loop_foldl: "push_loop chunks st = flush (foldl (\<lambda>st chunk. push_step chunk st) st chunks)"
  by (induction chunks arbitrary: st) auto

lemma foldl_push_step_inv:
  "buf_inv st \<Longrightarrow> buf_inv (foldl (\<lambda>st chunk. push_step chunk st) st chunks)"
  by (induction chunks arbitrary: st) (auto simp: push_step_inv)

text \<open>
  On the empty chunk sequence the buffer is empty when the chunks are exhausted, and the
  handler of \<^verbatim>\<open>StopIteration\<close> still calls \<^verbatim>\<open>fout.write\<close>, with no bytes.
\<close>

theorem final_write_counterexample:
  "buffer_size (at_exhaustion []) = 0 \<and> fout (at_exhaustion []) = [] \<and> push_blocks [] = [[]]"
  by (simp add: at_exhaustion_def push_blocks_def push_init_def flush_def bio_read_def bio_seek_def)

text \<open>
  C4, as amended. After the chunk sequence is exhausted the remaining buffer contents are
  passed to one final write, whether or not they are empty. When the buffer is empty then,
  the final write carries no bytes and the content of the sink stays as it was.
\<close>

theorem final_write_always:
  "push_blocks chunks = fout (at_exhaustion chunks) @ [pending (at_exhaustion chunks)]
   \<and> length (pending (at_exhaustion chunks)) = buffer_size (at_exhaustion chunks)
   \<and> (buffer_size (at_exhaustion chunks) = 0 \<longrightarrow>
        push_blocks chunks = fout (at_exhaustion chunks) @ [[]]
        \<and> concat (push_blocks chunks) = concat (fout (at_exhaustion chunks)))"
proof -
  have inv: "buf_inv (at_exhaustion chunks)"
    unfolding at_exhaustion_def using buf_inv_init by (rule foldl_push_step_inv)
  have "push_blocks chunks = fout (flush (at_exhaustion chunks))"
    by (simp add: push_blocks_def at_exhaustion_def push_loop_foldl)
  then have blocks: "push_blocks chunks = fout (at_exhaustion chunks) @ [pending (at_exhaustion chunks)]"
    using flush_fout [OF inv] by simp
  have len: "length (pending (at_exhaustion chunks)) = buffer_size (at_exhaustion chunks)"
    using inv by (rule pending_length)
  show ?thesis
    using blocks len by auto
qed

text \<open>
  A single chunk of exactly the capacity is flushed by the loop body; the final write is
  then a write of no bytes.
\<close>

theorem final_write_always_witness:
  "buffer_size (at_exhaustion [replicate 4193280 0]) = 0
   \<and> fout (at_exhaustion [replicate 4193280 0]) = [replicate 4193280 0]
   \<and> push_blocks [replicate 4193280 0] = [replicate 4193280 0, []]
   \<and> concat (push_blocks [replicate 4193280 0]) = concat (fout (at_exhaustion [replicate 4193280 0]))"
proof -
  have size: "buffer_size (at_exhaustion [replicate 4193280 0]) = 0"
    by (simp add: at_exhaustion_def push_init_def push_step_def bio_write_def
        flush_def bio_read_def bio_seek_def buffer_cap_def)
  have out: "fout (at_exhaustion [replicate 4193280 0]) = [replicate 4193280 0]"
    by (simp add: at_exhaustion_def push_init_def push_step_def bio_write_def
        flush_def bio_read_def bio_seek_def buffer_cap_def)
  show ?thesis
    using size out final_write_always [of "[replicate 4193280 0]"] by simp
qed

section \<open>Namespace paths\<close>

lemma str_split1_conv:
  "str_split1 c s =
     (if c \<in> set s then [takeWhile (\<lambda>x. x \<noteq> c) s, drop 1 (dropWhile (\<lambda>x. x \<noteq> c) s)] else [s])"
  by (induction s) (auto simp: Let_def)

lemma split_name_conv:
  "split_name name = (case spec_split name of None \<Rightarrow> Inl missing_separator | Some p \<Rightarrow> Inr p)"
  by (simp add: split_name_def spec_split_def str_split1_conv unpack2_def missing_separator_def)

lemma spec_split_Some:
  assumes "spec_split name = Some (bucket, key)"
  shows "name = bucket @ CHR ''/'' # key \<and> CHR ''/'' \<notin> set bucket"
proof -
  let ?P = "\<lambda>c. c \<noteq> CHR ''/''"
  from assms have mem: "CHR ''/'' \<in> set name"
    and b: "bucket = takeWhile ?P name" and k: "key = drop 1 (dropWhile ?P name)"
    by (auto simp: spec_split_def split: if_splits)
  from mem have ne: "dropWhile ?P name \<noteq> []"
    by (auto simp: dropWhile_eq_Nil_conv)
  then have "hd (dropWhile ?P name) = CHR ''/''"
    using hd_dropWhile [of ?P name] by simp
  with ne have "dropWhile ?P name = CHR ''/'' # key"
    unfolding k by (cases "dropWhile ?P name") auto
  then have "name = bucket @ CHR ''/'' # key"
    unfolding b using takeWhile_dropWhile_id [of ?P name] by simp
  moreover have "CHR ''/'' \<notin> set bucket"
    unfolding b using set_takeWhileD by fastforce
  ultimately show ?thesis by simp
qed

text \<open>
  C5. A namespace path that contains a \<^verbatim>\<open>/\<close> is split at the first one into bucket
  and object key, so that \<^verbatim>\<open>mybucket/foo/bar\<close> gives the bucket \<^verbatim>\<open>mybucket\<close> and the
  key prefix \<^verbatim>\<open>foo/bar\<close>. On a path without \<^verbatim>\<open>/\<close> the split, and with it
  \<^verbatim>\<open>push_stream\<close> and \<^verbatim>\<open>pull_stream\<close>, fails with the \<^verbatim>\<open>ValueError\<close> of the
  unpacking, which is the invalid-name error of this code; the store is left as it was.
\<close>

theorem split_name_first_slash:
  "(CHR ''/'' \<in> set name \<longrightarrow>
      (\<exists>bucket key. split_name name = Inr (bucket, key)
          \<and> name = bucket @ CHR ''/'' # key \<and> CHR ''/'' \<notin> set bucket))
   \<and> (CHR ''/'' \<notin> set name \<longrightarrow>
        split_name name = Inl (ValueError ''not enough values to unpack (expected 2, got 1)'')
        \<and> push_stream cd docs name public show_progress branding s
            = (Inl (ValueError ''not enough values to unpack (expected 2, got 1)''), s)
        \<and> pull_stream cd name show_progress local_cache s
            = Inl (ValueError ''not enough values to unpack (expected 2, got 1)''))
   \<and> split_name ''mybucket/foo/bar'' = Inr (''mybucket'', ''foo/bar'')"
proof (intro conjI impI)
  assume mem: "CHR ''/'' \<in> set name"
  then obtain bucket key where sp: "spec_split name = Some (bucket, key)"
    by (simp add: spec_split_def)
  then have "split_name name = Inr (bucket, key)"
    by (simp add: split_name_conv)
  then show "\<exists>bucket key. split_name name = Inr (bucket, key)
          \<and> name = bucket @ CHR ''/'' # key \<and> CHR ''/'' \<notin> set bucket"
    using spec_split_Some [OF sp] by blast
next
  assume "CHR ''/'' \<notin> set name"
  then have none: "spec_split name = None"
    by (simp add: spec_split_def)
  then show fail: "split_name name = Inl (ValueError ''not enough values to unpack (expected 2, got 1)'')"
    by (simp add: split_name_conv missing_separator_def)
  then show "push_stream cd docs name public show_progress branding s
            = (Inl (ValueError ''not enough values to unpack (expected 2, got 1)''), s)"
    by (simp add: push_stream_def)
  from fail show "pull_stream cd name show_progress local_cache s
            = Inl (ValueError ''not enough values to unpack (expected 2, got 1)'')"
    by (simp add: pull_stream_def)
next
  show "split_name ''mybucket/foo/bar'' = Inr (''mybucket'', ''foo/bar'')"
    by (simp add: split_name_def unpack2_def)
qed

text \<open>The path of the specification, and a path without separator.\<close>

theorem split_name_first_slash_witness:
  "CHR ''/'' \<in> set ''mybucket/foo/bar''
   \<and> (\<exists>bucket key. split_name ''mybucket/foo/bar'' = Inr (bucket, key)
          \<and> ''mybucket/foo/bar'' = bucket @ CHR ''/'' # key \<and> CHR ''/'' \<notin> set bucket)
   \<and> CHR ''/'' \<notin> set ''foo.bar''
   \<and> split_name ''foo.bar'' = Inl (ValueError ''not enough values to unpack (expected 2, got 1)'')
   \<and> push_stream \<lparr>to_binary_stream = \<lambda>ds p c b. map (\<lambda>d. [d]) ds, from_binary_stream = \<lambda>bs p c b. Inr bs\<rparr>
        [1, 2 :: byte] ''foo.bar'' True False None \<lparr>objects = [], load_fault = \<lambda>a. None\<rparr>
        = (Inl (ValueError ''not enough values to unpack (expected 2, got 1)''), \<lparr>objects = [], load_fault = \<lambda>a. None\<rparr>)
   \<and> pull_stream \<lparr>to_binary_stream = \<lambda>ds p c b. map (\<lambda>d. [d]) ds, from_binary_stream = \<lambda>bs p c b. Inr bs\<rparr>
        ''foo.bar'' False False \<lparr>objects = [], load_fault = \<lambda>a. None\<rparr>
        = (Inl (ValueError ''not enough values to unpack (expected 2, got 1)'') :: exn + byte list)"
  using split_name_first_slash [of "''mybucket/foo/bar''" "\<lparr>to_binary_stream = \<lambda>ds p c b. map (\<lambda>d. [d]) ds, from_binary_stream = \<lambda>bs p c b. Inr bs\<rparr>"
      "[1, 2]" True False None "\<lparr>objects = [], load_fault = \<lambda>a. None\<rparr>" False]
    split_name_first_slash [of "''foo.bar''" "\<lparr>to_binary_stream = \<lambda>ds p c b. map (\<lambda>d. [d]) ds, from_binary_stream = \<lambda>bs p c b. Inr bs\<rparr>"
      "[1, 2]" True False None "\<lparr>objects = [], load_fault = \<lambda>a. None\<rparr>" False]
  by simp

subsection \<open>The address opened by \<^verbatim>\<open>push_stream\<close> and \<^verbatim>\<open>pull_stream\<close>\<close>

lemma parse_uri_s3_uri:
  assumes "CHR ''/'' \<notin> set bucket"
  shows "parse_uri (s3_uri bucket name) = (bucket, name @ ''.da'')"
proof -
  let ?P = "\<lambda>c. c \<noteq> CHR ''/''"
  have all: "\<And>x. x \<in> set bucket \<Longrightarrow> ?P x"
    using assms by auto
  have "drop 5 (s3_uri bucket name) = bucket @ CHR ''/'' # (name @ ''.da'')"
    by (simp add: s3_uri_def)
  moreover have "takeWhile ?P (bucket @ CHR ''/'' # (name @ ''.da'')) = bucket"
    using all by (simp add: takeWhile_append2)
  moreover have "dropWhile ?P (bucket @ CHR ''/'' # (name @ ''.da'')) = CHR ''/'' # (name @ ''.da'')"
    using all by (simp add: dropWhile_append2)
  ultimately show ?thesis
    by (simp add: parse_uri_def Let_def)
qed

section \<open>Deleting\<close>

lemma object_load_absent:
  "load_fault s (bucket, key) = None \<Longrightarrow> map_of (objects s) (bucket, key) = None
     \<Longrightarrow> object_load s bucket key = Inl (ClientError ''404'')"
  by (simp add: object_load_def)

lemma object_load_present:
  "load_fault s (bucket, key) = None \<Longrightarrow> map_of (objects s) (bucket, key) \<noteq> None
     \<Longrightarrow> object_load s bucket key = Inr ()"
  by (auto simp: object_load_def)

lemma delete_body_absent:
  assumes "object_load s bucket (key @ ''.da'') = Inl (ClientError ''404'')"
  shows "delete_body bucket key missing_ok s =
           (if missing_ok then Inr False
            else Inl (ValueError (''Object '' @ key @ '' does not exist'')), s)"
  using assms by (simp add: delete_body_def)

lemma object_delete_map:
  "map_of (objects (object_delete s bucket key)) = (map_of (objects s))((bucket, key) := None)"
  by (simp add: object_delete_def delete_conv')

lemma object_delete_fault: "load_fault (object_delete s bucket key) = load_fault s"
  by (simp add: object_delete_def)

text \<open>
  C7. \<^verbatim>\<open>delete\<close> first loads the object. Where the store answers the load without a
  failure of its own: an absent object gives \<open>False\<close> when \<^verbatim>\<open>missing_ok\<close> is set and
  the not-found \<^verbatim>\<open>ValueError\<close> otherwise, the store unchanged; a present object is
  deleted (and no other) and the result is \<open>True\<close>. A second delete of the name just
  deleted behaves as the delete of an absent name.
\<close>

theorem delete_cases:
  assumes "split_name name = Inr (bucket, key)"
      and "load_fault s (bucket, key @ ''.da'') = None"
  shows "(map_of (objects s) (bucket, key @ ''.da'') = None \<longrightarrow>
            delete name True s = (Inr False, s)
          \<and> delete name False s = (Inl (ValueError (''Object '' @ key @ '' does not exist'')), s))
       \<and> (map_of (objects s) (bucket, key @ ''.da'') \<noteq> None \<longrightarrow>
            delete name missing_ok s = (Inr True, object_delete s bucket (key @ ''.da''))
          \<and> map_of (objects (object_delete s bucket (key @ ''.da'')))
              = (map_of (objects s))((bucket, key @ ''.da'') := None)
          \<and> delete name True (object_delete s bucket (key @ ''.da''))
              = (Inr False, object_delete s bucket (key @ ''.da''))
          \<and> delete name False (object_delete s bucket (key @ ''.da''))
              = (Inl (ValueError (''Object '' @ key @ '' does not exist'')),
                 object_delete s bucket (key @ ''.da'')))"
proof (intro conjI impI)
  assume absent: "map_of (objects s) (bucket, key @ ''.da'') = None"
  have load: "object_load s bucket (key @ ''.da'') = Inl (ClientError ''404'')"
    using assms(2) absent by (rule object_load_absent)
  show "delete name True s = (Inr False, s)"
    using assms(1) delete_body_absent [OF load, of True] by (simp add: delete_def)
  show "delete name False s = (Inl (ValueError (''Object '' @ key @ '' does not exist'')), s)"
    using assms(1) delete_body_absent [OF load, of False] by (simp add: delete_def)
next
  assume present: "map_of (objects s) (bucket, key @ ''.da'') \<noteq> None"
  let ?s' = "object_delete s bucket (key @ ''.da'')"
  have load: "object_load s bucket (key @ ''.da'') = Inr ()"
    using assms(2) present by (rule object_load_present)
  show "delete name missing_ok s = (Inr True, ?s')"
    using assms(1) load by (simp add: delete_def delete_body_def)
  show gone: "map_of (objects ?s') = (map_of (objects s))((bucket, key @ ''.da'') := None)"
    by (rule object_delete_map)
  have load': "object_load ?s' bucket (key @ ''.da'') = Inl (ClientError ''404'')"
    using assms(2) gone by (simp add: object_load_absent object_delete_fault)
  show "delete name True ?s' = (Inr False, ?s')"
    using assms(1) delete_body_absent [OF load', of True] by (simp add: delete_def)
  show "delete name False ?s' = (Inl (ValueError (''Object '' @ key @ '' does not exist'')), ?s')"
    using assms(1) delete_body_absent [OF load', of False] by (simp add: delete_def)
qed

text \<open>
  A store with the one object \<^verbatim>\<open>x.da\<close> in bucket \<^verbatim>\<open>b\<close>: deleting \<^verbatim>\<open>b/x\<close>, deleting it
  again, and deleting the absent \<^verbatim>\<open>b/y\<close>.
\<close>

theorem delete_cases_witness:
  "split_name ''b/x'' = Inr (''b'', ''x'')
   \<and> map_of (objects \<lparr>objects = [((''b'', ''x.da''), [1])], load_fault = \<lambda>a. None\<rparr>) (''b'', ''x.da'') \<noteq> None
   \<and> delete ''b/x'' False \<lparr>objects = [((''b'', ''x.da''), [1])], load_fault = \<lambda>a. None\<rparr>
       = (Inr True, \<lparr>objects = [], load_fault = \<lambda>a. None\<rparr>)
   \<and> delete ''b/x'' True \<lparr>objects = [], load_fault = \<lambda>a. None\<rparr>
       = (Inr False, \<lparr>objects = [], load_fault = \<lambda>a. None\<rparr>)
   \<and> delete ''b/x'' False \<lparr>objects = [], load_fault = \<lambda>a. None\<rparr>
       = (Inl (ValueError ''Object x does not exist''), \<lparr>objects = [], load_fault = \<lambda>a. None\<rparr>)
   \<and> split_name ''b/y'' = Inr (''b'', ''y'')
   \<and> map_of (objects \<lparr>objects = [((''b'', ''x.da''), [1])], load_fault = \<lambda>a. None\<rparr>) (''b'', ''y.da'') = None
   \<and> delete ''b/y'' True \<lparr>objects = [((''b'', ''x.da''), [1])], load_fault = \<lambda>a. None\<rparr>
       = (Inr False, \<lparr>objects = [((''b'', ''x.da''), [1])], load_fault = \<lambda>a. None\<rparr>)
   \<and> delete ''b/y'' False \<lparr>objects = [((''b'', ''x.da''), [1])], load_fault = \<lambda>a. None\<rparr>
       = (Inl (ValueError ''Object y does not exist''),
          \<lparr>objects = [((''b'', ''x.da''), [1])], load_fault = \<lambda>a. None\<rparr>)"
proof -
  define s0 :: s3 where "s0 = \<lparr>objects = [((''b'', ''x.da''), [1])], load_fault = \<lambda>a. None\<rparr>"
  have x: "split_name ''b/x'' = Inr (''b'', ''x'')"
    by (simp add: split_name_def unpack2_def)
  have y: "split_name ''b/y'' = Inr (''b'', ''y'')"
    by (simp add: split_name_def unpack2_def)
  have fx: "load_fault s0 (''b'', ''x'' @ ''.da'') = None"
    by (simp add: s0_def)
  have fy: "load_fault s0 (''b'', ''y'' @ ''.da'') = None"
    by (simp add: s0_def)
  have del: "object_delete s0 ''b'' ''x.da'' = \<lparr>objects = [], load_fault = \<lambda>a. None\<rparr>"
    by (simp add: s0_def object_delete_def)
  show ?thesis
    using x y del delete_cases [OF x fx, of False] delete_cases [OF y fy, of False]
    by (simp add: s0_def)
qed

text \<open>
  C8. Of the failures of the load, only the \<^verbatim>\<open>ClientError\<close> with code 404 is interpreted
  by \<^verbatim>\<open>delete\<close>; every other exception of the load is the exception of \<^verbatim>\<open>delete\<close>,
  the same value, and the store is not touched.
\<close>

theorem delete_propagates:
  assumes "split_name name = Inr (bucket, key)"
      and "object_load s bucket (key @ ''.da'') = Inl e"
  shows "(e \<noteq> ClientError ''404'' \<longrightarrow> delete name missing_ok s = (Inl e, s))
       \<and> (e = ClientError ''404'' \<longrightarrow>
            delete name missing_ok s =
              (if missing_ok then Inr False
               else Inl (ValueError (''Object '' @ key @ '' does not exist'')), s))"
proof (intro conjI impI)
  assume "e \<noteq> ClientError ''404''"
  then show "delete name missing_ok s = (Inl e, s)"
    using assms by (cases e) (simp_all add: delete_def delete_body_def)
next
  assume "e = ClientError ''404''"
  then show "delete name missing_ok s =
              (if missing_ok then Inr False
               else Inl (ValueError (''Object '' @ key @ '' does not exist'')), s)"
    using assms delete_body_absent [of s bucket key missing_ok] by (simp add: delete_def)
qed

text \<open>
  A store that answers every load with the code 403 (access denied), and an empty store
  that answers with 404.
\<close>

theorem delete_propagates_witness:
  "split_name ''b/x'' = Inr (''b'', ''x'')
   \<and> object_load \<lparr>objects = [], load_fault = \<lambda>a. Some (ClientError ''403'')\<rparr> ''b'' ''x.da''
       = Inl (ClientError ''403'')
   \<and> delete ''b/x'' True \<lparr>objects = [], load_fault = \<lambda>a. Some (ClientError ''403'')\<rparr>
       = (Inl (ClientError ''403''), \<lparr>objects = [], load_fault = \<lambda>a. Some (ClientError ''403'')\<rparr>)
   \<and> object_load \<lparr>objects = [], load_fault = \<lambda>a. None\<rparr> ''b'' ''x.da'' = Inl (ClientError ''404'')
   \<and> delete ''b/x'' True \<lparr>objects = [], load_fault = \<lambda>a. None\<rparr>
       = (Inr False, \<lparr>objects = [], load_fault = \<lambda>a. None\<rparr>)"
proof -
  define s1 :: s3 where "s1 = \<lparr>objects = [], load_fault = \<lambda>a. Some (ClientError ''403'')\<rparr>"
  define s2 :: s3 where "s2 = \<lparr>objects = [], load_fault = \<lambda>a. None\<rparr>"
  have x: "split_name ''b/x'' = Inr (''b'', ''x'')"
    by (simp add: split_name_def unpack2_def)
  have l1: "object_load s1 ''b'' (''x'' @ ''.da'') = Inl (ClientError ''403'')"
    by (simp add: s1_def object_load_def)
  have l2: "object_load s2 ''b'' (''x'' @ ''.da'') = Inl (ClientError ''404'')"
    by (simp add: s2_def object_load_def)
  show ?thesis
    using x l1 l2 delete_propagates [OF x l1, of True] delete_propagates [OF x l2, of True]
    by (simp add: s1_def s2_def)
qed

section \<open>Round trip\<close>

lemma map_of_close_wb:
  "map_of (objects (close_wb uri writes s)) (parse_uri uri) = Some (concat writes)"
  by (simp add: close_wb_def update_conv')

lemma open_rb_close_wb: "open_rb uri (close_wb uri writes s) = Inr (concat writes)"
  by (simp add: open_rb_def map_of_close_wb)

text \<open>
  C1. For every finite document sequence \<open>D\<close>, the empty one included, and every
  namespace path with a \<^verbatim>\<open>/\<close>: after \<^verbatim>\<open>push\<close> of \<open>D\<close> under the name, \<^verbatim>\<open>pull\<close> of
  the name gives \<open>D\<close>, the same documents in the same order. Both call the codec with
  the tags \<^verbatim>\<open>protobuf\<close> and \<^verbatim>\<open>gzip\<close>; the codec is assumed to decode, under these
  tags, the bytes of its own chunks for \<open>D\<close> back to \<open>D\<close>.
\<close>

theorem push_pull_roundtrip:
  assumes "CHR ''/'' \<in> set name"
      and "from_binary_stream cd
             (concat (to_binary_stream cd D ''protobuf'' ''gzip'' show_progress))
             ''protobuf'' ''gzip'' show_progress' = Inr D"
  shows "fst (push cd D name public show_progress branding s) = Inr []
       \<and> pull cd name show_progress' local_cache
           (snd (push cd D name public show_progress branding s)) = Inr D"
proof -
  obtain bucket key where sp: "split_name name = Inr (bucket, key)"
    using assms(1) by (auto simp: split_name_conv spec_split_def)
  define chunks where "chunks = to_binary_stream cd D ''protobuf'' ''gzip'' show_progress"
  define s' where "s' = close_wb (s3_uri bucket key) (push_blocks chunks) s"
  have pushed: "push cd D name public show_progress branding s = (Inr [], s')"
    using sp by (simp add: push_def push_stream_def push_stream_body_def Let_def
        s'_def chunks_def push_blocks_def)
  have "open_rb (s3_uri bucket key) s' = Inr (concat chunks)"
    unfolding s'_def by (simp add: open_rb_close_wb push_blocks_spec concat_spec_blocks)
  then have "pull cd name show_progress' local_cache s' = Inr D"
    using sp assms(2) by (simp add: pull_def pull_stream_def pull_stream_body_def chunks_def)
  then show ?thesis
    using pushed by simp
qed

text \<open>
  A codec with one chunk of one byte per document, on three documents and on none,
  pushed to an empty store.
\<close>

theorem push_pull_roundtrip_witness:
  "CHR ''/'' \<in> set ''bkt/ns/da0''
   \<and> pull \<lparr>to_binary_stream = \<lambda>ds p c b. map (\<lambda>d. [d]) ds, from_binary_stream = \<lambda>bs p c b. Inr bs\<rparr>
        ''bkt/ns/da0'' False False
        (snd (push \<lparr>to_binary_stream = \<lambda>ds p c b. map (\<lambda>d. [d]) ds, from_binary_stream = \<lambda>bs p c b. Inr bs\<rparr>
               [1, 2, 3 :: byte] ''bkt/ns/da0'' False False None
               \<lparr>objects = [], load_fault = \<lambda>a. None\<rparr>))
       = Inr [1, 2, 3]
   \<and> pull \<lparr>to_binary_stream = \<lambda>ds p c b. map (\<lambda>d. [d]) ds, from_binary_stream = \<lambda>bs p c b. Inr bs\<rparr>
        ''bkt/ns/da0'' False False
        (snd (push \<lparr>to_binary_stream = \<lambda>ds p c b. map (\<lambda>d. [d]) ds, from_binary_stream = \<lambda>bs p c b. Inr bs\<rparr>
               ([] :: byte list) ''bkt/ns/da0'' False False None
               \<lparr>objects = [], load_fault = \<lambda>a. None\<rparr>))
       = Inr []"
proof -
  define cd :: "byte codec" where
    "cd = \<lparr>to_binary_stream = \<lambda>ds p c b. map (\<lambda>d. [d]) ds, from_binary_stream = \<lambda>bs p c b. Inr bs\<rparr>"
  have name: "CHR ''/'' \<in> set ''bkt/ns/da0''"
    by simp
  have rt: "from_binary_stream cd (concat (to_binary_stream cd D ''protobuf'' ''gzip'' False))
              ''protobuf'' ''gzip'' False = Inr D" for D
    by (simp add: cd_def)
  show ?thesis
    using name
      push_pull_roundtrip [OF name rt, of "[1, 2, 3]" False None
        "\<lparr>objects = [], load_fault = \<lambda>a. None\<rparr>" False]
      push_pull_roundtrip [OF name rt, of "[]" False None
        "\<lparr>objects = [], load_fault = \<lambda>a. None\<rparr>" False]
    unfolding cd_def by blast
qed

section \<open>Listing\<close>

lemma str_split_nonempty: "str_split c s \<noteq> []"
  by (induction s) (auto simp: Let_def)

lemma str_split_no_sep: "c \<notin> set s \<Longrightarrow> str_split c s = [s]"
  by (induction s) (auto simp: Let_def)

lemma str_split_append:
  "c \<notin> set ys \<Longrightarrow>
     str_split c (xs @ ys) = butlast (str_split c xs) @ [last (str_split c xs) @ ys]"
proof (induction xs)
  case Nil
  then show ?case by (simp add: str_split_no_sep)
next
  case (Cons x xs)
  then show ?case
    by (cases "str_split c xs") (auto simp: Let_def str_split_nonempty)
qed

lemma last_str_split_append:
  "c \<notin> set ys \<Longrightarrow> last (str_split c (xs @ ys)) = last (str_split c xs) @ ys"
  by (simp add: str_split_append)

lemma hd_str_split_append:
  "c \<notin> set xs \<Longrightarrow> hd (str_split c (xs @ c # ys)) = xs"
  by (induction xs) (auto simp: Let_def)

text \<open>
  Where the last path segment of a key with the extension has no dot before the
  extension, the name that \<^verbatim>\<open>list\<close> derives is the key without path prefix and
  extension.
\<close>

lemma da_name_undotted:
  assumes "suffix ''.da'' key" and "CHR ''.'' \<notin> set (spec_da_name key)"
  shows "hd (str_split (CHR ''.'') (last (str_split (CHR ''/'') key))) = spec_da_name key"
proof -
  obtain p where key: "key = p @ ''.da''"
    using assms(1) by (auto simp: suffix_def)
  define q where "q = last (str_split (CHR ''/'') p)"
  have base: "last (str_split (CHR ''/'') key) = q @ ''.da''"
    unfolding key q_def by (rule last_str_split_append) simp
  then have name: "spec_da_name key = q"
    by (simp add: spec_da_name_def)
  then have "CHR ''.'' \<notin> set q"
    using assms(2) by simp
  then have "hd (str_split (CHR ''.'') (q @ CHR ''.'' # ''da'')) = q"
    by (rule hd_str_split_append)
  then show ?thesis
    using base name by simp
qed

text \<open>The objects of the specification's example, listed under the namespace \<^verbatim>\<open>ns\<close>.\<close>

lemma list_da_example:
  "list_da ''bkt/ns'' False
     \<lparr>objects = [((''bkt'', ''ns/a.da''), []), ((''bkt'', ''ns/b.da''), []),
                 ((''bkt'', ''other/c.da''), []), ((''bkt'', ''ns/readme.txt''), [])],
      load_fault = \<lambda>a. None\<rparr>
   = Inr [''a'', ''b'']"
  by (simp add: list_da_def list_body_def objects_all_def split_name_def unpack2_def
      suffix_to_prefix Let_def)

text \<open>
  C9, at the failing input. \<^verbatim>\<open>push\<close> under the name \<^verbatim>\<open>bkt/ns/a.b\<close> stores the key
  \<^verbatim>\<open>ns/a.b.da\<close>. Stripping the path prefix and the extension \<^verbatim>\<open>.da\<close> from this key
  gives \<^verbatim>\<open>a.b\<close>; \<^verbatim>\<open>list\<close> of the namespace \<^verbatim>\<open>bkt/ns\<close> returns \<^verbatim>\<open>a\<close>, the part before
  the first dot.
\<close>

theorem list_da_dotted_name:
  "objects_all (snd (push cd docs ''bkt/ns/a.b'' public show_progress branding
                       \<lparr>objects = [], load_fault = \<lambda>a. None\<rparr>)) ''bkt''
     = [''ns/a.b.da'']
   \<and> list_da ''bkt/ns'' False
       (snd (push cd docs ''bkt/ns/a.b'' public show_progress branding
               \<lparr>objects = [], load_fault = \<lambda>a. None\<rparr>))
     = Inr [''a'']
   \<and> spec_da_name ''ns/a.b.da'' = ''a.b''"
  by (simp add: push_def push_stream_def push_stream_body_def close_wb_def parse_uri_def
      s3_uri_def list_da_def list_body_def objects_all_def split_name_def unpack2_def
      spec_da_name_def suffix_to_prefix Let_def)

section \<open>Arguments without effect\<close>

text \<open>
  C10. Two runs of \<^verbatim>\<open>push_stream\<close>, or of \<^verbatim>\<open>push\<close>, that differ only in the arguments
  \<^verbatim>\<open>public\<close> and \<^verbatim>\<open>branding\<close> return the same result and leave the same store, with the
  same bytes in the object written; the result of a run that does not fail on the name is
  the empty dictionary.
\<close>

theorem push_ignores_public_branding:
  "push_stream cd docs name public show_progress branding s
     = push_stream cd docs name public' show_progress branding' s
   \<and> push cd docs name public show_progress branding s
     = push cd docs name public' show_progress branding' s
   \<and> fst (push_stream cd docs name public show_progress branding s)
     = (case split_name name of Inl e \<Rightarrow> Inl e | Inr p \<Rightarrow> Inr [])"
  by (simp add: push_def push_stream_def push_stream_body_def Let_def split: sum.splits)

section \<open>One address for all operations\<close>

lemma delete_body_store:
  "snd (delete_body bucket key missing_ok s) = s
   \<or> snd (delete_body bucket key missing_ok s) = object_delete s bucket (key @ ''.da'')"
  by (auto simp: delete_body_def split: sum.splits exn.splits)

lemma delete_body_elsewhere:
  assumes "a \<noteq> (bucket, key @ ''.da'')"
  shows "map_of (objects (snd (delete_body bucket key missing_ok s))) a = map_of (objects s) a"
  using delete_body_store [of bucket key missing_ok s] assms
  by (auto simp: object_delete_map)

lemma delete_body_no_fault:
  assumes "load_fault s (bucket, key @ ''.da'') = None"
  shows "fst (delete_body bucket key missing_ok s) =
           (if map_of (objects s) (bucket, key @ ''.da'') = None
            then (if missing_ok then Inr False
                  else Inl (ValueError (''Object '' @ key @ '' does not exist'')))
            else Inr True)
         \<and> map_of (objects (snd (delete_body bucket key missing_ok s))) (bucket, key @ ''.da'') = None"
proof (cases "map_of (objects s) (bucket, key @ ''.da'') = None")
  case True
  have "object_load s bucket (key @ ''.da'') = Inl (ClientError ''404'')"
    using assms True by (rule object_load_absent)
  then show ?thesis
    using True by (simp add: delete_body_absent)
next
  case False
  have "object_load s bucket (key @ ''.da'') = Inr ()"
    using assms False by (rule object_load_present)
  then show ?thesis
    using False by (simp add: delete_body_def object_delete_map)
qed

lemma push_stream_body_store:
  assumes "CHR ''/'' \<notin> set bucket"
  shows "map_of (objects (snd (push_stream_body cd docs bucket key public show_progress branding s)))
         = (map_of (objects s))((bucket, key @ ''.da'') \<mapsto>
              concat (to_binary_stream cd docs ''protobuf'' ''gzip'' show_progress))"
proof -
  have "concat (fout (push_loop (to_binary_stream cd docs ''protobuf'' ''gzip'' show_progress) push_init))
        = concat (to_binary_stream cd docs ''protobuf'' ''gzip'' show_progress)"
    using push_blocks_spec concat_spec_blocks by (simp add: push_blocks_def)
  then show ?thesis
    using assms
    by (simp add: push_stream_body_def close_wb_def Let_def parse_uri_s3_uri update_conv')
qed

lemma pull_stream_body_read:
  assumes "CHR ''/'' \<notin> set bucket"
  shows "pull_stream_body cd bucket key show_progress local_cache s =
           (case map_of (objects s) (bucket, key @ ''.da'') of
              None \<Rightarrow> Inl (OtherError ''OSError'')
            | Some d \<Rightarrow> from_binary_stream cd d ''protobuf'' ''gzip'' show_progress)"
  using assms
  by (simp add: pull_stream_body_def open_rb_def parse_uri_s3_uri split: option.splits)

text \<open>
  C6. The four operations split the path in one and the same way, at its first
  \<^verbatim>\<open>/\<close> as the specification has it, and agree on the bucket and the object key that the
  path addresses. Where the path has no \<^verbatim>\<open>/\<close> all four fail with the same error and
  leave the store as it is. Where it splits into the bucket \<open>b\<close> and the rest \<open>k\<close>:
  \<^verbatim>\<open>list\<close> lists the keys of bucket \<open>b\<close> that start with \<open>k\<close>; \<^verbatim>\<open>delete\<close> decides
  on the object with key \<open>k\<close> plus \<^verbatim>\<open>.da\<close> in bucket \<open>b\<close>, leaves that address empty
  and touches no other; \<^verbatim>\<open>push_stream\<close> and \<^verbatim>\<open>push\<close> write the encoded documents
  to that address and to no other; \<^verbatim>\<open>pull_stream\<close> and \<^verbatim>\<open>pull\<close> decode the object of
  that address.
\<close>

theorem split_agreement:
  "(spec_split name = None \<longrightarrow>
      list_da name show_table s = Inl missing_separator
    \<and> delete name missing_ok s = (Inl missing_separator, s)
    \<and> push_stream cd docs name public show_progress branding s = (Inl missing_separator, s)
    \<and> push cd docs name public show_progress branding s = (Inl missing_separator, s)
    \<and> pull_stream cd name show_progress local_cache s = Inl missing_separator
    \<and> pull cd name show_progress local_cache s = Inl missing_separator)
   \<and> (\<forall>b k. spec_split name = Some (b, k) \<longrightarrow>
        list_da name show_table s =
          Inr (map (\<lambda>key. hd (str_split (CHR ''.'') (last (str_split (CHR ''/'') key))))
                 (filter (\<lambda>key. prefix k key \<and> suffix ''.da'' key) (objects_all s b)))
      \<and> (\<forall>a. a \<noteq> (b, k @ ''.da'') \<longrightarrow>
            map_of (objects (snd (delete name missing_ok s))) a = map_of (objects s) a)
      \<and> (load_fault s (b, k @ ''.da'') = None \<longrightarrow>
            fst (delete name missing_ok s) =
              (if map_of (objects s) (b, k @ ''.da'') = None
               then (if missing_ok then Inr False
                     else Inl (ValueError (''Object '' @ k @ '' does not exist'')))
               else Inr True)
          \<and> map_of (objects (snd (delete name missing_ok s))) (b, k @ ''.da'') = None)
      \<and> fst (push_stream cd docs name public show_progress branding s) = Inr []
      \<and> map_of (objects (snd (push_stream cd docs name public show_progress branding s)))
          = (map_of (objects s))((b, k @ ''.da'') \<mapsto>
               concat (to_binary_stream cd docs ''protobuf'' ''gzip'' show_progress))
      \<and> push cd docs name public show_progress branding s
          = push_stream cd docs name public show_progress branding s
      \<and> pull_stream cd name show_progress local_cache s =
          (case map_of (objects s) (b, k @ ''.da'') of
             None \<Rightarrow> Inl (OtherError ''OSError'')
           | Some d \<Rightarrow> from_binary_stream cd d ''protobuf'' ''gzip'' show_progress)
      \<and> pull cd name show_progress local_cache s
          = pull_stream cd name show_progress local_cache s)"
proof (intro conjI impI allI)
  assume none: "spec_split name = None"
  then have sp: "split_name name = Inl missing_separator"
    by (simp add: split_name_conv)
  show "list_da name show_table s = Inl missing_separator"
    using sp by (simp add: list_da_def)
  show "delete name missing_ok s = (Inl missing_separator, s)"
    using sp by (simp add: delete_def)
  show "push_stream cd docs name public show_progress branding s = (Inl missing_separator, s)"
    using sp by (simp add: push_stream_def)
  show "push cd docs name public show_progress branding s = (Inl missing_separator, s)"
    using sp by (simp add: push_def push_stream_def)
  show "pull_stream cd name show_progress local_cache s = Inl missing_separator"
    using sp by (simp add: pull_stream_def)
  show "pull cd name show_progress local_cache s = Inl missing_separator"
    using sp by (simp add: pull_def pull_stream_def)
next
  fix b k
  assume some: "spec_split name = Some (b, k)"
  then have sp: "split_name name = Inr (b, k)"
    by (simp add: split_name_conv)
  have nb: "CHR ''/'' \<notin> set b"
    using spec_split_Some [OF some] by blast
  have del: "delete name missing_ok s = delete_body b k missing_ok s"
    using sp by (simp add: delete_def)
  have psh: "push_stream cd docs name public show_progress branding s
      = push_stream_body cd docs b k public show_progress branding s"
    using sp by (simp add: push_stream_def)
  show "list_da name show_table s =
          Inr (map (\<lambda>key. hd (str_split (CHR ''.'') (last (str_split (CHR ''/'') key))))
                 (filter (\<lambda>key. prefix k key \<and> suffix ''.da'' key) (objects_all s b)))"
    using sp by (simp add: list_da_def list_body_def Let_def)
  show "map_of (objects (snd (delete name missing_ok s))) a = map_of (objects s) a"
    if "a \<noteq> (b, k @ ''.da'')" for a
    unfolding del using that by (rule delete_body_elsewhere)
  show "fst (push_stream cd docs name public show_progress branding s) = Inr []"
    unfolding psh by (simp add: push_stream_body_def Let_def)
  show "map_of (objects (snd (push_stream cd docs name public show_progress branding s)))
          = (map_of (objects s))((b, k @ ''.da'') \<mapsto>
               concat (to_binary_stream cd docs ''protobuf'' ''gzip'' show_progress))"
    unfolding psh using nb by (rule push_stream_body_store)
  show "push cd docs name public show_progress branding s
          = push_stream cd docs name public show_progress branding s"
    by (simp add: push_def)
  show "pull_stream cd name show_progress local_cache s =
          (case map_of (objects s) (b, k @ ''.da'') of
             None \<Rightarrow> Inl (OtherError ''OSError'')
           | Some d \<Rightarrow> from_binary_stream cd d ''protobuf'' ''gzip'' show_progress)"
    using sp pull_stream_body_read [OF nb] by (simp add: pull_stream_def)
  show "pull cd name show_progress local_cache s
          = pull_stream cd name show_progress local_cache s"
    by (simp add: pull_def)
  assume nf: "load_fault s (b, k @ ''.da'') = None"
  show "fst (delete name missing_ok s) =
              (if map_of (objects s) (b, k @ ''.da'') = None
               then (if missing_ok then Inr False
                     else Inl (ValueError (''Object '' @ k @ '' does not exist'')))
               else Inr True)"
    unfolding del using delete_body_no_fault [OF nf] by blast
  show "map_of (objects (snd (delete name missing_ok s))) (b, k @ ''.da'') = None"
    unfolding del using delete_body_no_fault [OF nf] by blast
qed

text \<open>
  The path of the specification on a store that holds the object it addresses, an
  object of the same bucket outside the namespace, and an object of another bucket
  whose key is that of the first: the four operations work on \<^verbatim>\<open>foo/bar.da\<close> of the
  bucket \<^verbatim>\<open>mybucket\<close>. A path without \<^verbatim>\<open>/\<close> fails in all of them.
\<close>

theorem split_agreement_witness:
  "spec_split ''mybucket/foo/bar'' = Some (''mybucket'', ''foo/bar'')
   \<and> load_fault \<lparr>objects = [((''mybucket'', ''foo/bar.da''), [7]), ((''other'', ''foo/bar.da''), [8]), ((''mybucket'', ''zoo.da''), [9])], load_fault = \<lambda>a. None\<rparr> (''mybucket'', ''foo/bar.da'') = None
   \<and> list_da ''mybucket/foo/bar'' False \<lparr>objects = [((''mybucket'', ''foo/bar.da''), [7]), ((''other'', ''foo/bar.da''), [8]), ((''mybucket'', ''zoo.da''), [9])], load_fault = \<lambda>a. None\<rparr> = Inr [''bar'']
   \<and> fst (delete ''mybucket/foo/bar'' False \<lparr>objects = [((''mybucket'', ''foo/bar.da''), [7]), ((''other'', ''foo/bar.da''), [8]), ((''mybucket'', ''zoo.da''), [9])], load_fault = \<lambda>a. None\<rparr>) = Inr True
   \<and> map_of (objects (snd (delete ''mybucket/foo/bar'' False \<lparr>objects = [((''mybucket'', ''foo/bar.da''), [7]), ((''other'', ''foo/bar.da''), [8]), ((''mybucket'', ''zoo.da''), [9])], load_fault = \<lambda>a. None\<rparr>))) (''mybucket'', ''foo/bar.da'') = None
   \<and> map_of (objects (snd (delete ''mybucket/foo/bar'' False \<lparr>objects = [((''mybucket'', ''foo/bar.da''), [7]), ((''other'', ''foo/bar.da''), [8]), ((''mybucket'', ''zoo.da''), [9])], load_fault = \<lambda>a. None\<rparr>))) (''other'', ''foo/bar.da'') = Some [8]
   \<and> map_of (objects (snd (delete ''mybucket/foo/bar'' False \<lparr>objects = [((''mybucket'', ''foo/bar.da''), [7]), ((''other'', ''foo/bar.da''), [8]), ((''mybucket'', ''zoo.da''), [9])], load_fault = \<lambda>a. None\<rparr>))) (''mybucket'', ''zoo.da'') = Some [9]
   \<and> map_of (objects (snd (push_stream \<lparr>to_binary_stream = \<lambda>ds p c b. map (\<lambda>d. [d]) ds, from_binary_stream = \<lambda>bs p c b. Inr bs\<rparr> [1, 2 :: byte] ''mybucket/foo/bar'' True False None \<lparr>objects = [((''mybucket'', ''foo/bar.da''), [7]), ((''other'', ''foo/bar.da''), [8]), ((''mybucket'', ''zoo.da''), [9])], load_fault = \<lambda>a. None\<rparr>)))
        (''mybucket'', ''foo/bar.da'') = Some [1, 2]
   \<and> map_of (objects (snd (push_stream \<lparr>to_binary_stream = \<lambda>ds p c b. map (\<lambda>d. [d]) ds, from_binary_stream = \<lambda>bs p c b. Inr bs\<rparr> [1, 2 :: byte] ''mybucket/foo/bar'' True False None \<lparr>objects = [((''mybucket'', ''foo/bar.da''), [7]), ((''other'', ''foo/bar.da''), [8]), ((''mybucket'', ''zoo.da''), [9])], load_fault = \<lambda>a. None\<rparr>)))
        (''other'', ''foo/bar.da'') = Some [8]
   \<and> pull_stream \<lparr>to_binary_stream = \<lambda>ds p c b. map (\<lambda>d. [d]) ds, from_binary_stream = \<lambda>bs p c b. Inr bs\<rparr> ''mybucket/foo/bar'' False False \<lparr>objects = [((''mybucket'', ''foo/bar.da''), [7]), ((''other'', ''foo/bar.da''), [8]), ((''mybucket'', ''zoo.da''), [9])], load_fault = \<lambda>a. None\<rparr> = Inr [7 :: byte]
   \<and> spec_split ''foobar'' = None
   \<and> list_da ''foobar'' False \<lparr>objects = [((''mybucket'', ''foo/bar.da''), [7]), ((''other'', ''foo/bar.da''), [8]), ((''mybucket'', ''zoo.da''), [9])], load_fault = \<lambda>a. None\<rparr> = Inl missing_separator
   \<and> delete ''foobar'' False \<lparr>objects = [((''mybucket'', ''foo/bar.da''), [7]), ((''other'', ''foo/bar.da''), [8]), ((''mybucket'', ''zoo.da''), [9])], load_fault = \<lambda>a. None\<rparr> = (Inl missing_separator, \<lparr>objects = [((''mybucket'', ''foo/bar.da''), [7]), ((''other'', ''foo/bar.da''), [8]), ((''mybucket'', ''zoo.da''), [9])], load_fault = \<lambda>a. None\<rparr>)
   \<and> push_stream \<lparr>to_binary_stream = \<lambda>ds p c b. map (\<lambda>d. [d]) ds, from_binary_stream = \<lambda>bs p c b. Inr bs\<rparr> [1, 2 :: byte] ''foobar'' True False None \<lparr>objects = [((''mybucket'', ''foo/bar.da''), [7]), ((''other'', ''foo/bar.da''), [8]), ((''mybucket'', ''zoo.da''), [9])], load_fault = \<lambda>a. None\<rparr> = (Inl missing_separator, \<lparr>objects = [((''mybucket'', ''foo/bar.da''), [7]), ((''other'', ''foo/bar.da''), [8]), ((''mybucket'', ''zoo.da''), [9])], load_fault = \<lambda>a. None\<rparr>)
   \<and> pull_stream \<lparr>to_binary_stream = \<lambda>ds p c b. map (\<lambda>d. [d]) ds, from_binary_stream = \<lambda>bs p c b. Inr bs\<rparr> ''foobar'' False False \<lparr>objects = [((''mybucket'', ''foo/bar.da''), [7]), ((''other'', ''foo/bar.da''), [8]), ((''mybucket'', ''zoo.da''), [9])], load_fault = \<lambda>a. None\<rparr> = (Inl missing_separator :: exn + byte list)"
proof -
  define st :: s3 where "st = \<lparr>objects = [((''mybucket'', ''foo/bar.da''), [7]), ((''other'', ''foo/bar.da''), [8]), ((''mybucket'', ''zoo.da''), [9])], load_fault = \<lambda>a. None\<rparr>"
  define cd :: "byte codec" where "cd = \<lparr>to_binary_stream = \<lambda>ds p c b. map (\<lambda>d. [d]) ds, from_binary_stream = \<lambda>bs p c b. Inr bs\<rparr>"
  have sp: "spec_split ''mybucket/foo/bar'' = Some (''mybucket'', ''foo/bar'')"
    by (simp add: spec_split_def)
  have none: "spec_split ''foobar'' = None"
    by (simp add: spec_split_def)
  have nf: "load_fault st (''mybucket'', ''foo/bar.da'') = None"
    by (simp add: st_def)
  have objs: "objects_all st ''mybucket'' = [''foo/bar.da'', ''zoo.da'']"
    by (simp add: st_def objects_all_def)
  have m1: "map_of (objects st) (''mybucket'', ''foo/bar.da'') = Some [7]"
    and m2: "map_of (objects st) (''other'', ''foo/bar.da'') = Some [8]"
    and m3: "map_of (objects st) (''mybucket'', ''zoo.da'') = Some [9]"
    by (simp_all add: st_def)
  have enc: "concat (to_binary_stream cd [1, 2] ''protobuf'' ''gzip'' False) = [1, 2]"
    and dec: "from_binary_stream cd [7] ''protobuf'' ''gzip'' False = Inr [7]"
    by (simp_all add: cd_def)
  have ok: "list_da ''mybucket/foo/bar'' False st = Inr [''bar'']
   \<and> fst (delete ''mybucket/foo/bar'' False st) = Inr True
   \<and> map_of (objects (snd (delete ''mybucket/foo/bar'' False st))) (''mybucket'', ''foo/bar.da'') = None
   \<and> map_of (objects (snd (delete ''mybucket/foo/bar'' False st))) (''other'', ''foo/bar.da'') = Some [8]
   \<and> map_of (objects (snd (delete ''mybucket/foo/bar'' False st))) (''mybucket'', ''zoo.da'') = Some [9]
   \<and> map_of (objects (snd (push_stream cd [1, 2] ''mybucket/foo/bar'' True False None st)))
        (''mybucket'', ''foo/bar.da'') = Some [1, 2]
   \<and> map_of (objects (snd (push_stream cd [1, 2] ''mybucket/foo/bar'' True False None st)))
        (''other'', ''foo/bar.da'') = Some [8]
   \<and> pull_stream cd ''mybucket/foo/bar'' False False st = Inr [7]"
    using sp nf objs m1 m2 m3 enc dec
      split_agreement [of "''mybucket/foo/bar''" False st False cd "[1, 2]" True False None False]
    by (simp add: suffix_to_prefix)
  have bad: "list_da ''foobar'' False st = Inl missing_separator
   \<and> delete ''foobar'' False st = (Inl missing_separator, st)
   \<and> push_stream cd [1, 2] ''foobar'' True False None st = (Inl missing_separator, st)
   \<and> pull_stream cd ''foobar'' False False st = Inl missing_separator"
    using none
      split_agreement [of "''foobar''" False st False cd "[1, 2]" True False None False]
    by simp
  show ?thesis
    using sp none nf ok bad unfolding st_def cd_def by simp
qed

end
